theory Spec2Isabelle
  imports Main
begin

section \<open>Characters and string primitives of the two host languages\<close>

text \<open>
  Strings are lists of characters. The five characters the encoders test for by code
  are named here; every other character is written literally.
\<close>

abbreviation NL :: char where "NL \<equiv> CHR 0x0A"
abbreviation TAB :: char where "TAB \<equiv> CHR 0x09"
abbreviation CR :: char where "CR \<equiv> CHR 0x0D"
abbreviation DQ :: char where "DQ \<equiv> CHR 0x22"
abbreviation BSL :: char where "BSL \<equiv> CHR 0x5C"

text \<open>\<^verbatim>\<open>lines.join(sep)\<close> of JavaScript and \<^verbatim>\<open>strings.Join(lines, sep)\<close> of Go.\<close>

fun strJoin :: "string \<Rightarrow> string list \<Rightarrow> string" where
  "strJoin sep [] = []"
| "strJoin sep [x] = x"
| "strJoin sep (x # y # ys) = x @ sep @ strJoin sep (y # ys)"

text \<open>\<^verbatim>\<open>s.includes(c)\<close> and \<^verbatim>\<open>strings.Contains(s, c)\<close> for a one-character pattern.\<close>

definition strIncludes :: "string \<Rightarrow> char \<Rightarrow> bool" where
  "strIncludes s c = (c \<in> set s)"

text \<open>\<^verbatim>\<open>s.replace(/c/g, r)\<close> and \<^verbatim>\<open>strings.ReplaceAll(s, c, r)\<close> for a one-character pattern.\<close>

definition replaceAll :: "char \<Rightarrow> string \<Rightarrow> string \<Rightarrow> string" where
  "replaceAll c r s = concat (map (\<lambda>x. if x = c then r else [x]) s)"

text \<open>\<^verbatim>\<open>s.startsWith('"') && s.endsWith('"')\<close>; both are false on the empty string.\<close>

definition startsWith :: "string \<Rightarrow> char \<Rightarrow> bool" where
  "startsWith s c = (case s of [] \<Rightarrow> False | x # _ \<Rightarrow> x = c)"

definition endsWith :: "string \<Rightarrow> char \<Rightarrow> bool" where
  "endsWith s c = (case rev s of [] \<Rightarrow> False | x # _ \<Rightarrow> x = c)"

text \<open>\<^verbatim>\<open>' '.repeat(n)\<close> and \<^verbatim>\<open>strings.Repeat(" ", n)\<close>.\<close>

definition spaces :: "nat \<Rightarrow> string" where
  "spaces n = replicate n (CHR '' '')"

text \<open>Wrapping in double quotes: the template \<^verbatim>\<open>`"${s}"`\<close>.\<close>

definition quoted :: "string \<Rightarrow> string" where
  "quoted s = DQ # s @ [DQ]"

text \<open>
  The container-level quoting of a nested cell: wrap the text when it includes one of the
  given delimiters (\<^verbatim>\<open>if (s.includes(',') || ...) s = `"${s}"`\<close>).
\<close>

definition quoteIfAny :: "char list \<Rightarrow> string \<Rightarrow> string" where
  "quoteIfAny cs s = (if list_ex (strIncludes s) cs then quoted s else s)"

text \<open>
  Decimal text of a number. Numbers are modelled as integers, for which
  \<^verbatim>\<open>String(n)\<close> and \<^verbatim>\<open>fmt.Sprintf("%v", n)\<close> print the decimal digits with a
  leading minus sign; fractional values, exponents, NaN and the infinities are floating
  point and stay outside the model.
\<close>

definition digitChar :: "nat \<Rightarrow> char" where
  "digitChar d = ''0123456789'' ! (d mod 10)"

fun showNat :: "nat \<Rightarrow> string" where
  "showNat n = (if n < 10 then [digitChar n] else showNat (n div 10) @ [digitChar (n mod 10)])"

declare showNat.simps [simp del]

definition showInt :: "int \<Rightarrow> string" where
  "showInt i = (if i < 0 then CHR ''-'' # showNat (nat (- i)) else showNat (nat i))"

section \<open>The value model\<close>

text \<open>
  \<^verbatim>\<open>ToonValue = string | number | boolean | null | ToonObject | ToonArray\<close> of
  \<^verbatim>\<open>core.ts\<close>, and the dynamic types \<^verbatim>\<open>json.Unmarshal\<close> produces for Go's
  \<^verbatim>\<open>ToonValue interface{}\<close>. An object is the list of its own enumerable properties:
  for JavaScript in the order \<^verbatim>\<open>Object.keys\<close> reports them, for a Go map in an
  arbitrary enumeration (a Go map has no order of its own).
\<close>

datatype ToonValue =
    VNull
  | VBool bool
  | VNum int
  | VStr string
  | VArr "ToonValue list"
  | VObj "(string \<times> ToonValue) list"

datatype js_error = Error string | TypeError

text \<open>
  A property read can also give a value that is no \<^verbatim>\<open>ToonValue\<close>: a built-in function
  inherited from a prototype. \<^verbatim>\<open>BuiltinFunction name\<close> is the built-in function whose
  \<^verbatim>\<open>name\<close> property is \<^verbatim>\<open>name\<close>, and \<^verbatim>\<open>functionText name\<close> is the text \<^verbatim>\<open>String\<close>
  gives it under V8 (Node.js), the one form a built-in function is printed in there.
\<close>

datatype js_value = Data ToonValue | BuiltinFunction string

definition functionText :: "string \<Rightarrow> string" where
  "functionText name = ''function '' @ name @ ''() { [native code] }''"

section \<open>Property keys and objects of JavaScript\<close>

text \<open>
  A JavaScript object lists its own keys with the array indices first, in ascending
  numeric order, and the other keys after them in the order of their creation. An array
  index is the canonical decimal text of an integer below \<open>2^32 - 1\<close>.
  \<^verbatim>\<open>setKey\<close> is the assignment \<^verbatim>\<open>allKeysDict[objKey] = true\<close> on the list of own keys
  of \<^verbatim>\<open>allKeysDict\<close>; assigning to \<^verbatim>\<open>__proto__\<close> reaches the inherited setter, which
  ignores a boolean and creates no property.

  \<^verbatim>\<open>objectKeys\<close> is \<^verbatim>\<open>Object.keys\<close>: it throws a \<^verbatim>\<open>TypeError\<close> on \<^verbatim>\<open>null\<close>, finds no
  key on a number or a boolean, and the indices on a string or an array.

  \<^verbatim>\<open>getProp\<close> is the property read \<^verbatim>\<open>obj[k]\<close> (\<^verbatim>\<open>None\<close> is \<^verbatim>\<open>undefined\<close>): the own
  property of that name if there is one, and the member inherited along the prototype
  chain otherwise. Every object, array, string, number and boolean inherits from
  \<^verbatim>\<open>Object.prototype\<close>, whose members are listed in \<^verbatim>\<open>objectPrototype\<close> with the names
  of the functions they hold (\<^verbatim>\<open>constructor\<close> holds the function \<^verbatim>\<open>Object\<close>); an array,
  a string, a number and a boolean find the members of \<^verbatim>\<open>Array.prototype\<close>,
  \<^verbatim>\<open>String.prototype\<close>, \<^verbatim>\<open>Number.prototype\<close> and \<^verbatim>\<open>Boolean.prototype\<close> first. These four
  tables belong to the JavaScript runtime and grow with its version; the encoder takes
  them as the parameter \<^verbatim>\<open>rt\<close>, each a list of member names with the names of the
  functions they hold. The accessor \<^verbatim>\<open>__proto__\<close> of \<^verbatim>\<open>Object.prototype\<close> gives the
  prototype object itself, which has no enumerable own property and which the encoder
  therefore cannot tell from an empty object (from an empty array in the case of
  \<^verbatim>\<open>Array.prototype\<close>, which is an array). A property read on \<^verbatim>\<open>null\<close> throws; that
  case is part of \<^verbatim>\<open>propOrEmpty\<close> below, where the encoder reads.
  \<^verbatim>\<open>inheritedName k\<close> says that an object without an own property \<^verbatim>\<open>k\<close> still reads
  something at \<^verbatim>\<open>k\<close>. \<^verbatim>\<open>minimalRuntime\<close> is a runtime to evaluate the encoder on rows
  that are objects, which consult none of the four tables; of each table it lists the
  constructor only.
\<close>

record js_runtime =
  arrayPrototype :: "(string \<times> string) list"
  stringPrototype :: "(string \<times> string) list"
  numberPrototype :: "(string \<times> string) list"
  booleanPrototype :: "(string \<times> string) list"

definition minimalRuntime :: js_runtime where
  "minimalRuntime =
     \<lparr>arrayPrototype = [(''constructor'', ''Array'')],
      stringPrototype = [(''constructor'', ''String'')],
      numberPrototype = [(''constructor'', ''Number'')],
      booleanPrototype = [(''constructor'', ''Boolean'')]\<rparr>"

definition objectPrototype :: "(string \<times> string) list" where
  "objectPrototype =
     [(''constructor'', ''Object''),
      (''__defineGetter__'', ''__defineGetter__''),
      (''__defineSetter__'', ''__defineSetter__''),
      (''hasOwnProperty'', ''hasOwnProperty''),
      (''__lookupGetter__'', ''__lookupGetter__''),
      (''__lookupSetter__'', ''__lookupSetter__''),
      (''isPrototypeOf'', ''isPrototypeOf''),
      (''propertyIsEnumerable'', ''propertyIsEnumerable''),
      (''toString'', ''toString''),
      (''valueOf'', ''valueOf''),
      (''toLocaleString'', ''toLocaleString'')]"

definition inherited :: "(string \<times> string) list \<Rightarrow> ToonValue \<Rightarrow> string \<Rightarrow> js_value option" where
  "inherited members prototypeObject k =
     (case map_of (members @ objectPrototype) k of
        Some name \<Rightarrow> Some (BuiltinFunction name)
      | None \<Rightarrow> if k = ''__proto__'' then Some (Data prototypeObject) else None)"

definition isDigit :: "char \<Rightarrow> bool" where
  "isDigit c = (c \<in> set ''0123456789'')"

definition digitsToInt :: "string \<Rightarrow> int" where
  "digitsToInt s = foldl (\<lambda>acc c. 10 * acc + (int (of_char c) - 48)) 0 s"

definition isArrayIndex :: "string \<Rightarrow> bool" where
  "isArrayIndex s =
     (s \<noteq> [] \<and> list_all isDigit s \<and> (s = ''0'' \<or> \<not> startsWith s (CHR ''0''))
      \<and> digitsToInt s < 4294967295)"

fun insertIndexKey :: "string \<Rightarrow> string list \<Rightarrow> string list" where
  "insertIndexKey k [] = [k]"
| "insertIndexKey k (j # js) =
     (if isArrayIndex j \<and> digitsToInt j < digitsToInt k then j # insertIndexKey k js
      else k # j # js)"

definition setKey :: "string list \<Rightarrow> string \<Rightarrow> string list" where
  "setKey ks k =
     (if k = ''__proto__'' then ks
      else if k \<in> set ks then ks
      else if isArrayIndex k then insertIndexKey k ks
      else ks @ [k])"

fun objectKeys :: "ToonValue \<Rightarrow> js_error + string list" where
  "objectKeys VNull = Inl TypeError"
| "objectKeys (VBool b) = Inr []"
| "objectKeys (VNum n) = Inr []"
| "objectKeys (VStr s) = Inr (map showNat [0..<length s])"
| "objectKeys (VArr xs) = Inr (map showNat [0..<length xs])"
| "objectKeys (VObj kvs) = Inr (map fst kvs)"


fun getProp :: "js_runtime \<Rightarrow> ToonValue \<Rightarrow> string \<Rightarrow> js_value option" where
  "getProp rt (VObj kvs) k =
     (case map_of kvs k of
        Some v \<Rightarrow> Some (Data v)
      | None \<Rightarrow> inherited [] (VObj []) k)"
| "getProp rt (VArr xs) k =
     (if isArrayIndex k \<and> digitsToInt k < int (length xs)
      then Some (Data (xs ! nat (digitsToInt k)))
      else if k = ''length'' then Some (Data (VNum (int (length xs))))
      else inherited (arrayPrototype rt) (VArr []) k)"
| "getProp rt (VStr s) k =
     (if isArrayIndex k \<and> digitsToInt k < int (length s)
      then Some (Data (VStr [s ! nat (digitsToInt k)]))
      else if k = ''length'' then Some (Data (VNum (int (length s))))
      else inherited (stringPrototype rt) (VObj []) k)"
| "getProp rt (VNum n) k = inherited (numberPrototype rt) (VObj []) k"
| "getProp rt (VBool b) k = inherited (booleanPrototype rt) (VObj []) k"
| "getProp rt VNull k = None"

section \<open>The encoder of core.ts\<close>

text \<open>
  Results are \<^typ>\<open>js_error + string\<close>: the one exception the encoder can raise is the
  \<^verbatim>\<open>TypeError\<close> of \<^verbatim>\<open>Object.keys(obj)\<close> on a \<^verbatim>\<open>null\<close> row of a table (only the first
  row is inspected before the rows are treated as objects; the read \<^verbatim>\<open>obj[k]\<close> of the
  row loop would throw on such a row too, had the key pass not thrown). \<^verbatim>\<open>sequenceE\<close> runs a loop
  whose steps may throw and \<^verbatim>\<open>mapRight\<close> continues after a call that may have thrown.
  The first parameter of every function, \<^verbatim>\<open>rt\<close>, is the JavaScript runtime the code
  runs on.

  \<^verbatim>\<open>isPlainObject v\<close> is the test
  \<^verbatim>\<open>typeof v === 'object' && v !== null && !Array.isArray(v)\<close>, and \<^verbatim>\<open>firstIsObject data\<close>
  the same test on \<^verbatim>\<open>data[0]\<close> of a non-empty array. \<^verbatim>\<open>orEmpty\<close> is \<^verbatim>\<open>?? ''\<close>, and
  \<^verbatim>\<open>propOrEmpty rt obj k\<close> the expression \<^verbatim>\<open>obj[k] ?? ''\<close> of lines 175 and 200, which
  throws a \<^verbatim>\<open>TypeError\<close> when \<^verbatim>\<open>obj\<close> is \<^verbatim>\<open>null\<close>.
  \<^verbatim>\<open>allKeysOf\<close> is the loop that fills \<^verbatim>\<open>allKeysDict\<close> followed by \<^verbatim>\<open>Object.keys\<close>
  (lines 149-155), \<^verbatim>\<open>nestedKeysOf\<close> the same for \<^verbatim>\<open>nestedKeysDict\<close> (lines 182-190).
  \<^verbatim>\<open>escapeControl\<close> is the chain of five \<^verbatim>\<open>replace\<close> calls of \<^verbatim>\<open>valueToToon\<close>, and
  \<^verbatim>\<open>quoteCell\<close> the quoting of a scalar cell (lines 234-242).
\<close>

fun sequenceE :: "('e + 'a) list \<Rightarrow> 'e + 'a list" where
  "sequenceE [] = Inr []"
| "sequenceE (Inl e # rs) = Inl e"
| "sequenceE (Inr x # rs) = (case sequenceE rs of Inl e \<Rightarrow> Inl e | Inr xs \<Rightarrow> Inr (x # xs))"

definition mapRight :: "('a \<Rightarrow> 'b) \<Rightarrow> 'e + 'a \<Rightarrow> 'e + 'b" where
  "mapRight f r = (case r of Inl e \<Rightarrow> Inl e | Inr x \<Rightarrow> Inr (f x))"

fun isPlainObject :: "ToonValue \<Rightarrow> bool" where
  "isPlainObject (VObj kvs) = True"
| "isPlainObject v = False"

definition firstIsObject :: "ToonValue list \<Rightarrow> bool" where
  "firstIsObject data = (case data of [] \<Rightarrow> False | d # _ \<Rightarrow> isPlainObject d)"

definition orEmpty :: "js_value option \<Rightarrow> js_value" where
  "orEmpty r = (case r of None \<Rightarrow> Data (VStr []) | Some (Data VNull) \<Rightarrow> Data (VStr []) | Some v \<Rightarrow> v)"

definition propOrEmpty :: "js_runtime \<Rightarrow> ToonValue \<Rightarrow> string \<Rightarrow> js_error + js_value" where
  "propOrEmpty rt obj k = (if obj = VNull then Inl TypeError else Inr (orEmpty (getProp rt obj k)))"

definition allKeysOf :: "ToonValue list \<Rightarrow> js_error + string list" where
  "allKeysOf data = mapRight (\<lambda>kss. foldl setKey [] (concat kss)) (sequenceE (map objectKeys data))"

definition nestedKeysOf :: "ToonValue list \<Rightarrow> string list" where
  "nestedKeysOf value =
     foldl setKey []
       (concat (map (\<lambda>nestedObj. case nestedObj of VObj kvs \<Rightarrow> map fst kvs | _ \<Rightarrow> [])
          (filter isPlainObject value)))"

definition escapeControl :: "string \<Rightarrow> string" where
  "escapeControl value =
     replaceAll TAB [BSL, CHR ''t''] (replaceAll CR [BSL, CHR ''r''] (replaceAll NL [BSL, CHR ''n'']
       (replaceAll DQ [BSL, DQ] (replaceAll BSL [BSL, BSL] value))))"

definition quoteCell :: "string \<Rightarrow> string" where
  "quoteCell valueStr =
     (if \<not> (startsWith valueStr DQ \<and> endsWith valueStr DQ) then
        (if strIncludes valueStr (CHR '','') \<or> strIncludes valueStr NL
            \<or> strIncludes valueStr (CHR '':'') \<or> strIncludes valueStr (CHR '';'')
         then quoted (if strIncludes valueStr DQ then replaceAll DQ [BSL, DQ] valueStr else valueStr)
         else valueStr)
      else valueStr)"

text \<open>
  The encoder proper. \<^verbatim>\<open>dictEntry\<close> is the body of the loop \<^verbatim>\<open>for (const key of keys)\<close>
  of \<^verbatim>\<open>dictToToon\<close> and returns the lines it pushes; \<^verbatim>\<open>rowCell rt obj k\<close> is the body
  of the loop \<^verbatim>\<open>for (const k of allKeys)\<close> of \<^verbatim>\<open>listOfObjectsToToon\<close> and returns the
  text pushed onto \<^verbatim>\<open>rowValues\<close> for the row \<^verbatim>\<open>obj\<close>; \<^verbatim>\<open>nestedCell rt nestedObj nk\<close> is
  the body of the loop \<^verbatim>\<open>for (const nk of nestedKeys)\<close> (lines 199-207) and returns the
  text pushed onto \<^verbatim>\<open>nestedRowValues\<close>. A built-in function read from a prototype is
  neither an array nor an object for the tests of the row loop and falls through every
  test of \<^verbatim>\<open>valueToToon\<close> to its last line, \<^verbatim>\<open>String(value)\<close>. The recursion descends
  into the value,
  except that \<^verbatim>\<open>listToToon\<close> and \<^verbatim>\<open>listOfObjectsToToon\<close> hand the same array to each
  other once, on opposite answers of the test of its first element; the lemmas and
  the measure below are for the termination proof.
\<close>

lemma size_list_member: "v \<in> set xs \<Longrightarrow> size v < size_list size (xs :: ToonValue list)"
  by (induction xs) auto

lemma size_entry_member:
  "(k, v) \<in> set kvs \<Longrightarrow> size v < size_list (size_prod (\<lambda>_. 0) size) (kvs :: (string \<times> ToonValue) list)"
  by (induction kvs) auto

lemma isDigit_ge: "isDigit c \<Longrightarrow> 48 \<le> (of_char c :: nat)"
  by (auto simp: isDigit_def)

lemma foldl_digits_nonneg:
  "list_all isDigit s \<Longrightarrow> 0 \<le> acc \<Longrightarrow>
   0 \<le> foldl (\<lambda>acc c. 10 * acc + (int (of_char c) - 48)) acc s"
proof (induction s arbitrary: acc)
  case Nil
  then show ?case by simp
next
  case (Cons c s)
  from Cons.prems have "48 \<le> (of_char c :: nat)" by (simp add: isDigit_ge)
  then have "0 \<le> 10 * acc + (int (of_char c) - 48)" using Cons.prems by linarith
  with Cons show ?case by simp
qed

lemma digitsToInt_nonneg: "isArrayIndex k \<Longrightarrow> 0 \<le> digitsToInt k"
  by (simp add: isArrayIndex_def digitsToInt_def foldl_digits_nonneg)

lemma size_inherited:
  "inherited members p k = Some (Data v) \<Longrightarrow> v = p"
  by (auto simp: inherited_def split: option.splits if_splits)

lemma size_getProp:
  "getProp rt obj k = Some (Data v) \<Longrightarrow> size v \<le> size obj \<or> v = VObj [] \<or> v = VArr []"
proof (cases obj)
  case (VObj kvs)
  assume g: "getProp rt obj k = Some (Data v)"
  show ?thesis
  proof (cases "map_of kvs k")
    case None
    with g VObj show ?thesis by (auto dest: size_inherited)
  next
    case (Some w)
    with g VObj have "(k, v) \<in> set kvs" by (simp add: map_of_SomeD)
    from size_entry_member [OF this] VObj show ?thesis by simp
  qed
next
  case (VArr xs)
  assume g: "getProp rt obj k = Some (Data v)"
  show ?thesis
  proof (cases "isArrayIndex k \<and> digitsToInt k < int (length xs)")
    case True
    with g VArr have "v = xs ! nat (digitsToInt k)" by simp
    moreover from True have "nat (digitsToInt k) < length xs"
      using digitsToInt_nonneg [of k] by linarith
    ultimately have "v \<in> set xs" by simp
    from size_list_member [OF this] VArr show ?thesis by simp
  next
    case False
    with g VArr show ?thesis by (auto split: if_splits dest: size_inherited)
  qed
qed (auto split: if_splits dest: size_inherited)

lemma size_propOrEmpty:
  assumes "propOrEmpty rt obj k = Inr (Data v)"
  shows "size v \<le> size obj \<or> v = VObj [] \<or> v = VArr []"
proof -
  from assms have "orEmpty (getProp rt obj k) = Data v"
    by (simp add: propOrEmpty_def split: if_splits)
  then have "v = VStr [] \<or> getProp rt obj k = Some (Data v)"
    by (auto simp: orEmpty_def split: option.splits js_value.splits ToonValue.splits)
  then show ?thesis using size_getProp [of rt obj k v] by auto
qed

lemma size_cell_item:
  "propOrEmpty rt obj k = Inr (Data (VArr xs)) \<Longrightarrow> x \<in> set xs \<Longrightarrow> size x < size obj"
  using size_propOrEmpty [of rt obj k "VArr xs"] size_list_member [of x xs] by auto

lemma size_cell_entry:
  "propOrEmpty rt obj k = Inr (Data (VObj kvs)) \<Longrightarrow> (a, b) \<in> set kvs \<Longrightarrow> size b < size obj"
  using size_propOrEmpty [of rt obj k "VObj kvs"] size_entry_member [of a b kvs] by auto

lemma size_cell_value:
  "propOrEmpty rt obj k = Inr (Data v) \<Longrightarrow> 3 * size v < 3 * size obj + 4"
  using size_propOrEmpty [of rt obj k v] by auto

fun encMeasure ::
  "(js_runtime \<times> (string \<times> ToonValue) list \<times> nat \<times> nat
     + (js_runtime \<times> string \<times> ToonValue \<times> nat \<times> nat
        + js_runtime \<times> ToonValue list \<times> nat \<times> nat))
   + ((js_runtime \<times> string \<times> ToonValue list \<times> nat \<times> nat
       + js_runtime \<times> ToonValue \<times> string)
      + (js_runtime \<times> ToonValue \<times> string + js_runtime \<times> ToonValue \<times> nat \<times> nat))
   \<Rightarrow> nat" where
  "encMeasure (Inl (Inl (_, data, _, _))) = 3 * size_list (size_prod (\<lambda>_. 0) size) data + 1"
| "encMeasure (Inl (Inr (Inl (_, _, v, _, _)))) = 3 * size v + 2"
| "encMeasure (Inl (Inr (Inr (_, data, _, _)))) =
     3 * size_list size data + (if firstIsObject data then 2 else 1)"
| "encMeasure (Inr (Inl (Inl (_, _, data, _, _)))) =
     3 * size_list size data + (if firstIsObject data then 1 else 2)"
| "encMeasure (Inr (Inl (Inr (_, obj, _)))) = 3 * size obj + 2"
| "encMeasure (Inr (Inr (Inl (_, nestedObj, _)))) = 3 * size nestedObj + 4"
| "encMeasure (Inr (Inr (Inr (_, v, _, _)))) = 3 * size v"

function dictToToon :: "js_runtime \<Rightarrow> (string \<times> ToonValue) list \<Rightarrow> nat \<Rightarrow> nat \<Rightarrow> js_error + string"
  and dictEntry :: "js_runtime \<Rightarrow> string \<Rightarrow> ToonValue \<Rightarrow> nat \<Rightarrow> nat \<Rightarrow> js_error + string list"
  and listToToon :: "js_runtime \<Rightarrow> ToonValue list \<Rightarrow> nat \<Rightarrow> nat \<Rightarrow> js_error + string"
  and listOfObjectsToToon ::
    "js_runtime \<Rightarrow> string \<Rightarrow> ToonValue list \<Rightarrow> nat \<Rightarrow> nat \<Rightarrow> js_error + string"
  and rowCell :: "js_runtime \<Rightarrow> ToonValue \<Rightarrow> string \<Rightarrow> js_error + string"
  and nestedCell :: "js_runtime \<Rightarrow> ToonValue \<Rightarrow> string \<Rightarrow> js_error + string"
  and valueToToon :: "js_runtime \<Rightarrow> ToonValue \<Rightarrow> nat \<Rightarrow> nat \<Rightarrow> js_error + string"
where
  "dictToToon rt data indent level =
     (if data = [] then Inr ''{}''
      else mapRight (\<lambda>lines. strJoin [NL] (concat lines))
        (sequenceE (map (\<lambda>(key, value). dictEntry rt key value indent level) data)))"
| "dictEntry rt key value indent level =
     (case value of
        VArr xs \<Rightarrow>
          (if xs \<noteq> [] then
             (if firstIsObject xs
              then mapRight (\<lambda>t. [t]) (listOfObjectsToToon rt key xs indent level)
              else mapRight (\<lambda>b. [spaces (indent * level) @ key @ '':'', b])
                     (listToToon rt xs indent (level + 1)))
           else mapRight (\<lambda>valueStr. [spaces (indent * level) @ key @ '': '' @ valueStr])
                  (valueToToon rt value indent (level + 1)))
      | VObj kvs \<Rightarrow>
          (if kvs \<noteq> [] then
             mapRight (\<lambda>b. [spaces (indent * level) @ key @ '':'', b])
               (dictToToon rt kvs indent (level + 1))
           else mapRight (\<lambda>valueStr. [spaces (indent * level) @ key @ '': '' @ valueStr])
                  (valueToToon rt value indent (level + 1)))
      | _ \<Rightarrow> mapRight (\<lambda>valueStr. [spaces (indent * level) @ key @ '': '' @ valueStr])
                  (valueToToon rt value indent (level + 1)))"
| "listToToon rt data indent level =
     (if data = [] then Inr ''[]''
      else if firstIsObject data then listOfObjectsToToon rt [] data indent level
      else mapRight (strJoin [NL])
        (sequenceE (map (\<lambda>item. mapRight (\<lambda>valueStr. spaces (indent * level) @ ''- '' @ valueStr)
                                   (valueToToon rt item indent level)) data)))"
| "listOfObjectsToToon rt key data indent level =
     (if data = [] \<or> \<not> firstIsObject data then listToToon rt data indent level
      else case allKeysOf data of
        Inl e \<Rightarrow> Inl e
      | Inr allKeys \<Rightarrow>
          (if allKeys = [] then Inr ''[]''
           else mapRight
             (\<lambda>rows. strJoin [NL]
                ((if key \<noteq> []
                  then spaces (indent * level) @ key @ ''['' @ showNat (length data) @ '']{''
                         @ strJoin '','' allKeys @ ''}:''
                  else spaces (indent * level) @ ''['' @ showNat (length data) @ '']{''
                         @ strJoin '','' allKeys @ ''}:'')
                 # map (\<lambda>row. ''  '' @ row) rows))
             (sequenceE (map (\<lambda>obj. mapRight (strJoin '','')
                (sequenceE (map (\<lambda>k. rowCell rt obj k) allKeys))) data))))"
| "rowCell rt obj k =
     (case propOrEmpty rt obj k of
        Inl e \<Rightarrow> Inl e
      | Inr (Data (VArr xs)) \<Rightarrow>
          (if xs \<noteq> [] \<and> firstIsObject xs then
             mapRight (\<lambda>nestedRows. ''['' @ showNat (length xs) @ '']{''
                          @ strJoin '','' (nestedKeysOf xs) @ ''}:'' @ strJoin '';'' nestedRows)
               (sequenceE (map (\<lambda>nestedObj. mapRight (strJoin '','')
                  (sequenceE (map (\<lambda>nk. nestedCell rt nestedObj nk) (nestedKeysOf xs))))
                  (filter isPlainObject xs)))
           else mapRight (\<lambda>items. ''['' @ strJoin '','' items @ '']'')
                  (sequenceE (map (\<lambda>item. valueToToon rt item 0 0) xs)))
      | Inr (Data (VObj kvs)) \<Rightarrow>
          mapRight (\<lambda>nestedItems. ''{'' @ strJoin '','' nestedItems @ ''}'')
            (sequenceE (map (\<lambda>(nk, nv).
               mapRight (\<lambda>nvStr. nk @ '':'' @ quoteIfAny [CHR '','', CHR '':''] nvStr)
                 (valueToToon rt nv 0 0)) kvs))
      | Inr (Data value) \<Rightarrow> mapRight quoteCell (valueToToon rt value 0 0)
      | Inr (BuiltinFunction name) \<Rightarrow> Inr (quoteCell (functionText name)))"
| "nestedCell rt nestedObj nk =
     (case propOrEmpty rt nestedObj nk of
        Inl e \<Rightarrow> Inl e
      | Inr (Data nv) \<Rightarrow>
          mapRight (quoteIfAny [CHR '','', CHR '';'', CHR '':'']) (valueToToon rt nv 0 0)
      | Inr (BuiltinFunction name) \<Rightarrow>
          Inr (quoteIfAny [CHR '','', CHR '';'', CHR '':''] (functionText name)))"
| "valueToToon rt value indent level =
     (case value of
        VNull \<Rightarrow> Inr ''null''
      | VBool b \<Rightarrow> Inr (if b then ''true'' else ''false'')
      | VNum n \<Rightarrow> Inr (showInt n)
      | VStr s \<Rightarrow>
          Inr (if list_ex (\<lambda>c. c = NL \<or> c = TAB \<or> c = CR) s then quoted (escapeControl s) else s)
      | VArr xs \<Rightarrow> mapRight (\<lambda>b. NL # b) (listToToon rt xs indent level)
      | VObj kvs \<Rightarrow> mapRight (\<lambda>b. NL # b) (dictToToon rt kvs indent level))"
  by pat_completeness auto

termination
  apply (relation "measure encMeasure")
  apply simp
  apply (auto simp: firstIsObject_def
      dest: size_entry_member size_list_member size_cell_item size_cell_entry size_cell_value)
  done

definition toToon :: "js_runtime \<Rightarrow> ToonValue \<Rightarrow> nat \<Rightarrow> js_error + string" where
  "toToon rt data indent =
     (case data of
        VNull \<Rightarrow> Inr ''null''
      | VBool b \<Rightarrow> Inr (if b then ''true'' else ''false'')
      | VNum n \<Rightarrow> Inr (showInt n)
      | VStr s \<Rightarrow>
          Inr (if list_ex (\<lambda>c. c = NL \<or> c = TAB \<or> c = CHR '':'' \<or> c = CHR ''|'' \<or> c = DQ) s
               then quoted (replaceAll NL [BSL, CHR ''n'']
                      (replaceAll DQ [BSL, DQ] (replaceAll BSL [BSL, BSL] s)))
               else s)
      | VArr xs \<Rightarrow> listToToon rt xs indent 0
      | VObj kvs \<Rightarrow> dictToToon rt kvs indent 0)"

declare dictToToon.simps [simp del] dictEntry.simps [simp del] listToToon.simps [simp del]
  listOfObjectsToToon.simps [simp del] rowCell.simps [simp del] nestedCell.simps [simp del]
  valueToToon.simps [simp del]

text \<open>
  The escapes of the specification's scalar policy, character by character: newline,
  tab, carriage return, backslash and double quote; every other character stands for
  itself. It is compared with \<^verbatim>\<open>escapeControl\<close> below.
\<close>

definition specEscapeChar :: "char \<Rightarrow> string" where
  "specEscapeChar c =
     (if c = NL then [BSL, CHR ''n'']
      else if c = TAB then [BSL, CHR ''t'']
      else if c = CR then [BSL, CHR ''r'']
      else if c = BSL then [BSL, BSL]
      else if c = DQ then [BSL, DQ]
      else [c])"

section \<open>The decoder of core.ts\<close>

text \<open>\<^verbatim>\<open>fromToon\<close> throws on every input; the thrown \<^verbatim>\<open>Error\<close> is the left injection.\<close>

definition fromToon :: "string \<Rightarrow> js_error + ToonValue" where
  "fromToon toonStr = Inl (Error ''TOON parsing is not yet implemented'')"

section \<open>The Go encoders\<close>

text \<open>
  The repository holds two Go sources of the encoder. They agree word for word on
  \<^verbatim>\<open>toToon\<close>, \<^verbatim>\<open>dictToToon\<close>, \<^verbatim>\<open>listToToon\<close> and \<^verbatim>\<open>valueToToon\<close> and differ in
  \<^verbatim>\<open>listOfObjectsToToon\<close> and \<^verbatim>\<open>escapeString\<close>: \<^verbatim>\<open>src/go/totoon.go\<close> renders the pipe
  table and quotes on newline, tab, colon, pipe and double quote (\<^verbatim>\<open>PipeTable\<close>); the
  other (\<^verbatim>\<open>src/unnamed/part_002\<close>) renders the compact header-and-rows table and quotes
  on newline, tab and carriage return (\<^verbatim>\<open>CompactCsv\<close>). The first parameter of every
  function selects the source.

  A Go map has no order: \<^verbatim>\<open>for k, v := range m\<close> visits the entries in an order the
  runtime chooses anew. The list in \<^verbatim>\<open>VObj\<close> is one enumeration of the entries, and
  \<^verbatim>\<open>rangeOrder pick m\<close> is the order of one \<^verbatim>\<open>range\<close> statement: the runtime's choice
  \<^verbatim>\<open>pick m\<close>, which may be any permutation of the entries. The values are those
  \<^verbatim>\<open>json.Unmarshal\<close> builds (\<^verbatim>\<open>nil\<close>, \<^verbatim>\<open>bool\<close>, \<^verbatim>\<open>float64\<close>, \<^verbatim>\<open>string\<close>,
  \<^verbatim>\<open>[]interface{}\<close>, \<^verbatim>\<open>map[string]interface{}\<close>). \<^verbatim>\<open>objectsOf data\<close> are the rows the
  loops keep (\<^verbatim>\<open>if !ok { continue }\<close>), \<^verbatim>\<open>go_rowCell\<close> is the body of the loop over
  \<^verbatim>\<open>allKeys\<close>, \<^verbatim>\<open>go_dictEntry\<close> the body of the loop over the map.
\<close>

datatype goSource = PipeTable | CompactCsv

type_synonym goRange = "(string \<times> ToonValue) list \<Rightarrow> (string \<times> ToonValue) list"

fun isPermutation :: "'a list \<Rightarrow> 'a list \<Rightarrow> bool" where
  "isPermutation [] ys = (ys = [])"
| "isPermutation (x # xs) ys = (x \<in> set ys \<and> isPermutation xs (remove1 x ys))"

definition rangeOrder :: "goRange \<Rightarrow> (string \<times> ToonValue) list \<Rightarrow> (string \<times> ToonValue) list" where
  "rangeOrder pick m = (if isPermutation (pick m) m then pick m else m)"

definition go_needsEscaping :: "goSource \<Rightarrow> string \<Rightarrow> bool" where
  "go_needsEscaping src s =
     (case src of
        PipeTable \<Rightarrow> list_ex (\<lambda>c. c = NL \<or> c = TAB \<or> c = CHR '':'' \<or> c = CHR ''|'' \<or> c = DQ) s
      | CompactCsv \<Rightarrow> list_ex (\<lambda>c. c = NL \<or> c = TAB \<or> c = CR) s)"

definition go_escapeChar :: "goSource \<Rightarrow> char \<Rightarrow> string" where
  "go_escapeChar src c =
     (if c = BSL then [BSL, BSL]
      else if c = DQ then [BSL, DQ]
      else if c = NL then [BSL, CHR ''n'']
      else if c = CR \<and> src = CompactCsv then [BSL, CHR ''r'']
      else if c = TAB then [BSL, CHR ''t'']
      else [c])"

definition go_escapeString :: "goSource \<Rightarrow> string \<Rightarrow> string" where
  "go_escapeString src s =
     (if \<not> go_needsEscaping src s then s
      else DQ # concat (map (go_escapeChar src) s) @ [DQ])"

definition appendUnseen :: "string list \<Rightarrow> string \<Rightarrow> string list" where
  "appendUnseen allKeys k = (if k \<in> set allKeys then allKeys else allKeys @ [k])"

definition go_allKeys :: "goRange \<Rightarrow> ToonValue list \<Rightarrow> string list" where
  "go_allKeys pick data =
     foldl appendUnseen []
       (concat (map (\<lambda>item. case item of VObj obj \<Rightarrow> map fst (rangeOrder pick obj) | _ \<Rightarrow> []) data))"

definition objectsOf :: "ToonValue list \<Rightarrow> (string \<times> ToonValue) list list" where
  "objectsOf data = concat (map (\<lambda>item. case item of VObj obj \<Rightarrow> [obj] | _ \<Rightarrow> []) data)"

lemma isPermutation_set: "isPermutation xs ys \<Longrightarrow> set xs = set ys"
proof (induction xs arbitrary: ys)
  case Nil
  then show ?case by simp
next
  case (Cons x xs)
  then have "x \<in> set ys" and "set xs = set (remove1 x ys)" by simp_all
  moreover have "insert x (set (remove1 x ys)) = set ys"
    using \<open>x \<in> set ys\<close> by (induction ys) auto
  ultimately show ?case by simp
qed

lemma rangeOrder_set: "set (rangeOrder pick m) = set m"
  by (simp add: rangeOrder_def isPermutation_set)

lemma objectsOf_member: "obj \<in> set (objectsOf data) \<Longrightarrow> VObj obj \<in> set data"
  by (auto simp: objectsOf_def split: ToonValue.splits)

lemma size_object_row:
  "obj \<in> set (objectsOf data) \<Longrightarrow> size_list (size_prod (\<lambda>_. 0) size) obj < size_list size data"
  using size_list_member [of "VObj obj" data] by (auto dest: objectsOf_member)

lemma size_map_of:
  "map_of obj k = Some v \<Longrightarrow>
   size v < size_list (size_prod (\<lambda>_. 0) size) (obj :: (string \<times> ToonValue) list)"
  using size_entry_member [of k v obj] by (simp add: map_of_SomeD)

lemma size_map_of_item:
  "map_of obj k = Some (VArr xs) \<Longrightarrow> x \<in> set xs \<Longrightarrow>
   size x < size_list (size_prod (\<lambda>_. 0) size) (obj :: (string \<times> ToonValue) list)"
  using size_map_of [of obj k "VArr xs"] size_list_member [of x xs] by simp

lemma size_map_of_entry:
  "map_of obj k = Some (VObj val) \<Longrightarrow> (a, b) \<in> set val \<Longrightarrow>
   size b < size_list (size_prod (\<lambda>_. 0) size) (obj :: (string \<times> ToonValue) list)"
  using size_map_of [of obj k "VObj val"] size_entry_member [of a b val] by simp

lemma size_map_of_nested:
  "map_of obj k = Some (VArr xs) \<Longrightarrow> x \<in> set (objectsOf xs) \<Longrightarrow> map_of x nk = Some v \<Longrightarrow>
   size v < size_list (size_prod (\<lambda>_. 0) size) (obj :: (string \<times> ToonValue) list)"
  using size_map_of [of obj k "VArr xs"] size_object_row [of x xs] size_map_of [of x nk v] by simp

fun goMeasure ::
  "((goSource \<times> goRange \<times> (string \<times> ToonValue) list \<times> nat \<times> nat
     + (goSource \<times> goRange \<times> string \<times> ToonValue \<times> nat \<times> nat
        + goSource \<times> goRange \<times> ToonValue list \<times> nat \<times> nat))
   + (goSource \<times> goRange \<times> string \<times> ToonValue list \<times> nat \<times> nat
      + (goSource \<times> goRange \<times> (string \<times> ToonValue) list \<times> string
         + goSource \<times> goRange \<times> ToonValue \<times> nat \<times> nat)))
   \<Rightarrow> nat" where
  "goMeasure (Inl (Inl (_, _, data, _, _))) = 3 * size_list (size_prod (\<lambda>_. 0) size) data + 1"
| "goMeasure (Inl (Inr (Inl (_, _, _, v, _, _)))) = 3 * size v + 2"
| "goMeasure (Inl (Inr (Inr (_, _, data, _, _)))) = 3 * size_list size data + (if firstIsObject data then 2 else 1)"
| "goMeasure (Inr (Inl (_, _, _, data, _, _))) = 3 * size_list size data + (if firstIsObject data then 1 else 2)"
| "goMeasure (Inr (Inr (Inl (_, _, obj, _)))) = 3 * size_list (size_prod (\<lambda>_. 0) size) obj + 1"
| "goMeasure (Inr (Inr (Inr (_, _, v, _, _)))) = 3 * size v"

function go_dictToToon :: "goSource \<Rightarrow> goRange \<Rightarrow> (string \<times> ToonValue) list \<Rightarrow> nat \<Rightarrow> nat \<Rightarrow> string"
  and go_dictEntry :: "goSource \<Rightarrow> goRange \<Rightarrow> string \<Rightarrow> ToonValue \<Rightarrow> nat \<Rightarrow> nat \<Rightarrow> string list"
  and go_listToToon :: "goSource \<Rightarrow> goRange \<Rightarrow> ToonValue list \<Rightarrow> nat \<Rightarrow> nat \<Rightarrow> string"
  and go_listOfObjectsToToon :: "goSource \<Rightarrow> goRange \<Rightarrow> string \<Rightarrow> ToonValue list \<Rightarrow> nat \<Rightarrow> nat \<Rightarrow> string"
  and go_rowCell :: "goSource \<Rightarrow> goRange \<Rightarrow> (string \<times> ToonValue) list \<Rightarrow> string \<Rightarrow> string"
  and go_valueToToon :: "goSource \<Rightarrow> goRange \<Rightarrow> ToonValue \<Rightarrow> nat \<Rightarrow> nat \<Rightarrow> string"
where
  "go_dictToToon src pick data indent level =
     (if data = [] then ''{}''
      else strJoin [NL]
        (concat (map (\<lambda>(key, value). go_dictEntry src pick key value indent level)
           (rangeOrder pick data))))"
| "go_dictEntry src pick key value indent level =
     (case value of
        VObj val \<Rightarrow>
          (if val \<noteq> [] then
             [spaces (indent * level) @ key @ '':'', go_dictToToon src pick val indent (level + 1)]
           else [spaces (indent * level) @ key @ '': '' @ go_valueToToon src pick value indent (level + 1)])
      | VArr val \<Rightarrow>
          (if val \<noteq> [] then
             (if firstIsObject val
              then [go_listOfObjectsToToon src pick key val indent level]
              else [spaces (indent * level) @ key @ '':'', go_listToToon src pick val indent (level + 1)])
           else [spaces (indent * level) @ key @ '': '' @ go_valueToToon src pick value indent (level + 1)])
      | _ \<Rightarrow> [spaces (indent * level) @ key @ '': '' @ go_valueToToon src pick value indent (level + 1)])"
| "go_listToToon src pick data indent level =
     (if data = [] then ''[]''
      else if firstIsObject data then go_listOfObjectsToToon src pick [] data indent level
      else strJoin [NL]
        (map (\<lambda>item. spaces (indent * level) @ ''- '' @ go_valueToToon src pick item indent level) data))"
| "go_listOfObjectsToToon src pick key data indent level =
     (if data = [] then ''[]''
      else if \<not> firstIsObject data then go_listToToon src pick data indent level
      else if go_allKeys pick data = [] then ''[]''
      else (case src of
        PipeTable \<Rightarrow>
          strJoin [NL]
            ((if key \<noteq> [] then [spaces (indent * level) @ key @ '':''] else [])
             @ [spaces (indent * (if key \<noteq> [] then level + 1 else level))
                  @ strJoin '' | '' (go_allKeys pick data),
                spaces (indent * (if key \<noteq> [] then level + 1 else level))
                  @ strJoin '' | '' (map (\<lambda>_. ''---'') (go_allKeys pick data))]
             @ map (\<lambda>obj. spaces (indent * (if key \<noteq> [] then level + 1 else level))
                      @ strJoin '' | '' (map (\<lambda>k. go_rowCell src pick obj k) (go_allKeys pick data)))
                 (objectsOf data))
      | CompactCsv \<Rightarrow>
          strJoin [NL]
            ((if key \<noteq> []
              then spaces (indent * level) @ key @ ''['' @ showNat (length data) @ '']{''
                     @ strJoin '','' (go_allKeys pick data) @ ''}:''
              else spaces (indent * level) @ ''['' @ showNat (length data) @ '']{''
                     @ strJoin '','' (go_allKeys pick data) @ ''}:'')
             # map (\<lambda>obj. ''  '' @ strJoin '','' (map (\<lambda>k. go_rowCell src pick obj k) (go_allKeys pick data)))
                 (objectsOf data))))"
| "go_rowCell src pick obj k =
     (case map_of obj k of
        None \<Rightarrow> []
      | Some v \<Rightarrow>
          (case src of
             PipeTable \<Rightarrow>
               quoteIfAny [CHR ''|'', NL] (go_valueToToon src pick v 0 0)
           | CompactCsv \<Rightarrow>
               (case v of
                  VArr val \<Rightarrow>
                    (if val \<noteq> [] then
                       (if firstIsObject val then
                          ''['' @ showNat (length val) @ '']{''
                            @ strJoin '','' (go_allKeys pick val) @ ''}:''
                            @ strJoin '';''
                                (map (\<lambda>nestedObj. strJoin '',''
                                   (map (\<lambda>nk. case map_of nestedObj nk of
                                             None \<Rightarrow> []
                                           | Some nvVal \<Rightarrow>
                                               quoteIfAny [CHR '','', CHR '';'', CHR '':'']
                                                 (go_valueToToon src pick nvVal 0 0))
                                      (go_allKeys pick val)))
                                   (objectsOf val))
                        else ''['' @ strJoin '','' (map (\<lambda>item. go_valueToToon src pick item 0 0) val) @ '']'')
                     else ''[]'')
                | VObj val \<Rightarrow>
                    ''{'' @ strJoin '',''
                      (map (\<lambda>(nk, nv). nk @ '':''
                              @ quoteIfAny [CHR '','', CHR '':''] (go_valueToToon src pick nv 0 0))
                         (rangeOrder pick val)) @ ''}''
                | _ \<Rightarrow> quoteCell (go_valueToToon src pick v 0 0))))"
| "go_valueToToon src pick value indent level =
     (case value of
        VNull \<Rightarrow> ''null''
      | VBool b \<Rightarrow> (if b then ''true'' else ''false'')
      | VNum n \<Rightarrow> showInt n
      | VStr s \<Rightarrow> go_escapeString src s
      | VArr v \<Rightarrow> NL # go_listToToon src pick v indent level
      | VObj v \<Rightarrow> NL # go_dictToToon src pick v indent level)"
  by pat_completeness auto

termination
  apply (relation "measure goMeasure")
  apply simp
  apply (auto simp: firstIsObject_def rangeOrder_set
      dest: size_entry_member size_list_member size_object_row size_map_of size_map_of_item
        size_map_of_entry size_map_of_nested)
  done

declare go_dictToToon.simps [simp del] go_dictEntry.simps [simp del]
  go_listToToon.simps [simp del] go_listOfObjectsToToon.simps [simp del]
  go_rowCell.simps [simp del] go_valueToToon.simps [simp del]

definition go_toToon :: "goSource \<Rightarrow> goRange \<Rightarrow> ToonValue \<Rightarrow> nat \<Rightarrow> nat \<Rightarrow> string" where
  "go_toToon src pick data indent level =
     (case data of
        VNull \<Rightarrow> ''null''
      | VBool v \<Rightarrow> (if v then ''true'' else ''false'')
      | VNum v \<Rightarrow> showInt v
      | VStr v \<Rightarrow> go_escapeString src v
      | VArr v \<Rightarrow> go_listToToon src pick v indent level
      | VObj v \<Rightarrow> go_dictToToon src pick v indent level)"

definition go_ToToon :: "goSource \<Rightarrow> goRange \<Rightarrow> ToonValue \<Rightarrow> string" where
  "go_ToToon src pick data = go_toToon src pick data 2 0"

text \<open>A block of output: not empty, and its last character is no line break.\<close>

definition okBlock :: "string \<Rightarrow> bool" where
  "okBlock s = (s \<noteq> [] \<and> last s \<noteq> NL)"

section \<open>Properties\<close>

subsection \<open>Ends of the encoded text\<close>

lemma endsWith_iff: "endsWith s c \<longleftrightarrow> s \<noteq> [] \<and> last s = c"
  by (cases s rule: rev_cases) (simp_all add: endsWith_def)

lemma okBlock_noNL: "okBlock s \<Longrightarrow> \<not> endsWith s NL"
  by (simp add: okBlock_def endsWith_iff)

lemma sequenceE_Inr: "sequenceE rs = Inr ys \<Longrightarrow> rs = map Inr ys"
proof (induction rs arbitrary: ys)
  case Nil
  then show ?case by simp
next
  case (Cons r rs)
  then show ?case by (cases r) (auto split: sum.splits)
qed

lemma sequenceE_map_member:
  assumes "sequenceE (map f xs) = Inr ys" and "y \<in> set ys"
  shows "\<exists>x \<in> set xs. f x = Inr y"
proof -
  from assms(1) have "map f xs = map Inr ys" by (rule sequenceE_Inr)
  then have "Inr y \<in> set (map f xs)" using assms(2) by simp
  then show ?thesis by auto
qed

lemma sequenceE_map_last:
  assumes "sequenceE (map f xs) = Inr ys" and "xs \<noteq> []"
  shows "ys \<noteq> [] \<and> f (last xs) = Inr (last ys)"
proof -
  from assms(1) have eq: "map f xs = map Inr ys" by (rule sequenceE_Inr)
  then have len: "length xs = length ys" by (metis length_map)
  with assms(2) have ne: "ys \<noteq> []" by auto
  from eq have "last (map f xs) = last (map Inr ys)" by simp
  with assms(2) ne show ?thesis by (simp add: last_map)
qed

lemma mapRight_Inr: "mapRight f r = Inr y \<longleftrightarrow> (\<exists>x. r = Inr x \<and> y = f x)"
  by (cases r) (auto simp: mapRight_def)

lemma strJoin_last:
  "ls \<noteq> [] \<Longrightarrow> last ls \<noteq> [] \<Longrightarrow>
   strJoin sep ls \<noteq> [] \<and> last (strJoin sep ls) = last (last ls)"
  by (induction sep ls rule: strJoin.induct) auto

lemma strJoin_okBlock: "ls \<noteq> [] \<Longrightarrow> okBlock (last ls) \<Longrightarrow> okBlock (strJoin sep ls)"
  using strJoin_last [of ls sep] by (simp add: okBlock_def)

lemma endsWith_append:
  "endsWith (a @ b) c \<longleftrightarrow> (if b = [] then endsWith a c else endsWith b c)"
  by (simp add: endsWith_iff)

lemma strJoin_noEnd:
  assumes "sep \<noteq> []" and "\<not> endsWith sep c" and "\<forall>l \<in> set ls. \<not> endsWith l c"
  shows "\<not> endsWith (strJoin sep ls) c"
  using assms
proof (induction sep ls rule: strJoin.induct)
  case (1 sep)
  then show ?case by (simp add: endsWith_def)
next
  case (2 sep x)
  then show ?case by simp
next
  case (3 sep x y ys)
  then have "\<not> endsWith (strJoin sep (y # ys)) c" by simp
  with 3 show ?case by (simp add: endsWith_append)
qed

lemma last_concat_last: "lss \<noteq> [] \<Longrightarrow> last lss \<noteq> [] \<Longrightarrow> last (concat lss) = last (last lss)"
  by (cases lss rule: rev_cases) simp_all

lemma okBlock_append: "a \<noteq> [] \<Longrightarrow> last a \<noteq> NL \<Longrightarrow> \<not> endsWith b NL \<Longrightarrow> okBlock (a @ b)"
  by (cases "b = []") (auto simp: okBlock_def endsWith_iff)

lemma digitChar_notNL: "digitChar d \<noteq> NL"
proof -
  have "d mod 10 < length ''0123456789''" by simp
  then have "''0123456789'' ! (d mod 10) \<in> set ''0123456789''" by (rule nth_mem)
  then show ?thesis unfolding digitChar_def by auto
qed

lemma showNat_last: "showNat n \<noteq> [] \<and> last (showNat n) \<noteq> NL"
  by (subst showNat.simps, subst showNat.simps) (simp add: digitChar_notNL)

lemma showInt_noNL: "\<not> endsWith (showInt n) NL"
  using showNat_last by (simp add: showInt_def endsWith_iff)

lemma quoted_noNL: "\<not> endsWith (quoted s) NL"
  by (simp add: quoted_def endsWith_iff)

lemma quoteCell_noNL: "\<not> endsWith r NL \<Longrightarrow> \<not> endsWith (quoteCell r) NL"
  by (simp add: quoteCell_def quoted_noNL)

lemma plain_noNL:
  assumes "\<not> list_ex (\<lambda>c. c = NL \<or> P c) s"
  shows "\<not> endsWith s NL"
proof
  assume "endsWith s NL"
  then have "s \<noteq> []" and "last s = NL" by (simp_all add: endsWith_iff)
  then have "NL \<in> set s" using last_in_set [of s] by simp
  then have "list_ex (\<lambda>c. c = NL \<or> P c) s" unfolding list_ex_iff by blast
  with assms show False by simp
qed

lemma functionText_noNL: "\<not> endsWith (functionText name) NL"
  by (simp add: functionText_def endsWith_iff)

lemma entry_line_ok: "\<not> endsWith valueStr NL \<Longrightarrow> okBlock (p @ k @ '': '' @ valueStr)"
  using okBlock_append [of "p @ k @ '': ''" valueStr] by simp

lemma encoders_end:
  "\<forall>s. dictToToon rt data indent level = Inr s \<longrightarrow> okBlock s"
  "\<forall>ls. dictEntry rt key v indent level = Inr ls \<longrightarrow> ls \<noteq> [] \<and> okBlock (last ls)"
  "\<forall>s. listToToon rt xs indent level = Inr s \<longrightarrow> okBlock s"
  "\<forall>s. listOfObjectsToToon rt key xs indent level = Inr s \<longrightarrow> okBlock s"
  "\<forall>s. rowCell rt obj k = Inr s \<longrightarrow> \<not> endsWith s NL"
  "\<forall>s. nestedCell rt nestedObj nk = Inr s \<longrightarrow> \<not> endsWith s NL"
  "\<forall>s. valueToToon rt v indent level = Inr s \<longrightarrow> \<not> endsWith s NL"
proof (induction rt data indent level and rt key v indent level and rt xs indent level
    and rt key xs indent level and rt obj k and rt nestedObj nk and rt v indent level
    rule: dictToToon_dictEntry_listToToon_listOfObjectsToToon_rowCell_nestedCell_valueToToon.induct)
  case (1 rt data indent level)
  show ?case
  proof (intro allI impI)
    fix s assume r: "dictToToon rt data indent level = Inr s"
    show "okBlock s"
    proof (cases "data = []")
      case True
      with r show ?thesis by (auto simp: dictToToon.simps okBlock_def)
    next
      case False
      with r obtain lss where
        seq: "sequenceE (map (\<lambda>(key, value). dictEntry rt key value indent level) data) = Inr lss"
        and s: "s = strJoin [NL] (concat lss)"
        by (auto simp: dictToToon.simps mapRight_Inr)
      from sequenceE_map_last [OF seq False]
      have ne: "lss \<noteq> []"
        and lst: "(\<lambda>(key, value). dictEntry rt key value indent level) (last data) = Inr (last lss)"
        by simp_all
      obtain k0 v0 where kv: "last data = (k0, v0)" by (cases "last data")
      with False have mem: "(k0, v0) \<in> set data" by (metis last_in_set)
      from lst kv have "dictEntry rt k0 v0 indent level = Inr (last lss)" by simp
      with "1.IH" [OF False mem refl] have l1: "last lss \<noteq> []" and l2: "okBlock (last (last lss))"
        by simp_all
      from ne l1 have "concat lss \<noteq> []" by (cases lss rule: rev_cases) simp_all
      moreover from last_concat_last [OF ne l1] l2 have "okBlock (last (concat lss))" by simp
      ultimately show ?thesis unfolding s by (rule strJoin_okBlock)
    qed
  qed
next
  case (2 rt key v indent level)
  have line: "\<And>valueStr. \<not> endsWith valueStr NL \<Longrightarrow> okBlock (spaces (indent * level) @ key @ '': '' @ valueStr)"
    by (rule entry_line_ok)
  show ?case
  proof (intro allI impI)
    fix ls assume r: "dictEntry rt key v indent level = Inr ls"
    show "ls \<noteq> [] \<and> okBlock (last ls)"
    proof (cases v)
      case (VArr ys)
      show ?thesis
      proof (cases "ys = []")
        case True
        with r VArr obtain valueStr where "valueToToon rt v indent (level + 1) = Inr valueStr"
          and ls: "ls = [spaces (indent * level) @ key @ '': '' @ valueStr]"
          by (auto simp: dictEntry.simps mapRight_Inr)
        with "2.IH"(7) [OF VArr] True have "\<not> endsWith valueStr NL" by simp
        with ls line show ?thesis by simp
      next
        case False
        show ?thesis
        proof (cases "firstIsObject ys")
          case True
          with r VArr False obtain t where "listOfObjectsToToon rt key ys indent level = Inr t"
            and ls: "ls = [t]"
            by (auto simp: dictEntry.simps mapRight_Inr)
          with "2.IH"(5) [OF VArr False True] ls show ?thesis by simp
        next
          case nf: False
          with r VArr False obtain b where "listToToon rt ys indent (level + 1) = Inr b"
            and ls: "ls = [spaces (indent * level) @ key @ '':'', b]"
            by (auto simp: dictEntry.simps mapRight_Inr)
          with "2.IH"(6) [OF VArr False nf] ls show ?thesis by simp
        qed
      qed
    next
      case (VObj kvs)
      show ?thesis
      proof (cases "kvs = []")
        case True
        with r VObj obtain valueStr where "valueToToon rt v indent (level + 1) = Inr valueStr"
          and ls: "ls = [spaces (indent * level) @ key @ '': '' @ valueStr]"
          by (auto simp: dictEntry.simps mapRight_Inr)
        with "2.IH"(9) [OF VObj] True have "\<not> endsWith valueStr NL" by simp
        with ls line show ?thesis by simp
      next
        case False
        with r VObj obtain b where "dictToToon rt kvs indent (level + 1) = Inr b"
          and ls: "ls = [spaces (indent * level) @ key @ '':'', b]"
          by (auto simp: dictEntry.simps mapRight_Inr)
        with "2.IH"(8) [OF VObj False] ls show ?thesis by simp
      qed
    next
      case VNull
      with r obtain valueStr where "valueToToon rt v indent (level + 1) = Inr valueStr"
        and ls: "ls = [spaces (indent * level) @ key @ '': '' @ valueStr]"
        by (auto simp: dictEntry.simps mapRight_Inr)
      with "2.IH"(1) [OF VNull] have "\<not> endsWith valueStr NL" by simp
      with ls line show ?thesis by simp
    next
      case (VBool b)
      with r obtain valueStr where "valueToToon rt v indent (level + 1) = Inr valueStr"
        and ls: "ls = [spaces (indent * level) @ key @ '': '' @ valueStr]"
        by (auto simp: dictEntry.simps mapRight_Inr)
      with "2.IH"(2) [OF VBool] have "\<not> endsWith valueStr NL" by simp
      with ls line show ?thesis by simp
    next
      case (VNum n)
      with r obtain valueStr where "valueToToon rt v indent (level + 1) = Inr valueStr"
        and ls: "ls = [spaces (indent * level) @ key @ '': '' @ valueStr]"
        by (auto simp: dictEntry.simps mapRight_Inr)
      with "2.IH"(3) [OF VNum] have "\<not> endsWith valueStr NL" by simp
      with ls line show ?thesis by simp
    next
      case (VStr str)
      with r obtain valueStr where "valueToToon rt v indent (level + 1) = Inr valueStr"
        and ls: "ls = [spaces (indent * level) @ key @ '': '' @ valueStr]"
        by (auto simp: dictEntry.simps mapRight_Inr)
      with "2.IH"(4) [OF VStr] have "\<not> endsWith valueStr NL" by simp
      with ls line show ?thesis by simp
    qed
  qed
next
  case (3 rt xs indent level)
  show ?case
  proof (intro allI impI)
    fix s assume r: "listToToon rt xs indent level = Inr s"
    show "okBlock s"
    proof (cases "xs = []")
      case True
      with r show ?thesis by (auto simp: listToToon.simps okBlock_def)
    next
      case False
      show ?thesis
      proof (cases "firstIsObject xs")
        case True
        with r False have "listOfObjectsToToon rt [] xs indent level = Inr s"
          by (simp add: listToToon.simps)
        with "3.IH"(1) [OF False True] show ?thesis by simp
      next
        case nf: False
        with r False obtain ys where
          seq: "sequenceE (map (\<lambda>item. mapRight (\<lambda>valueStr. spaces (indent * level) @ ''- '' @ valueStr)
                  (valueToToon rt item indent level)) xs) = Inr ys"
          and s: "s = strJoin [NL] ys"
          by (auto simp: listToToon.simps mapRight_Inr)
        from sequenceE_map_last [OF seq False]
        have ne: "ys \<noteq> []"
          and "mapRight (\<lambda>valueStr. spaces (indent * level) @ ''- '' @ valueStr)
                 (valueToToon rt (last xs) indent level) = Inr (last ys)"
          by simp_all
        then obtain valueStr where vs: "valueToToon rt (last xs) indent level = Inr valueStr"
          and ly: "last ys = spaces (indent * level) @ ''- '' @ valueStr"
          by (auto simp: mapRight_Inr)
        from False have "last xs \<in> set xs" by simp
        from "3.IH"(2) [OF False nf this] vs have "\<not> endsWith valueStr NL" by simp
        then have "okBlock (last ys)"
          unfolding ly using okBlock_append [of "spaces (indent * level) @ ''- ''" valueStr] by simp
        with ne show ?thesis unfolding s by (rule strJoin_okBlock)
      qed
    qed
  qed
next
  case (4 rt key xs indent level)
  show ?case
  proof (intro allI impI)
    fix s assume r: "listOfObjectsToToon rt key xs indent level = Inr s"
    show "okBlock s"
    proof (cases "xs = [] \<or> \<not> firstIsObject xs")
      case True
      with r have "listToToon rt xs indent level = Inr s" by (simp add: listOfObjectsToToon.simps)
      with "4.IH"(1) [OF True] show ?thesis by simp
    next
      case False
      then have xne: "xs \<noteq> []" by simp
      from r False obtain allKeys where ak: "allKeysOf xs = Inr allKeys"
        by (cases "allKeysOf xs") (auto simp: listOfObjectsToToon.simps)
      show ?thesis
      proof (cases "allKeys = []")
        case True
        with r False ak show ?thesis by (auto simp: listOfObjectsToToon.simps okBlock_def)
      next
        case kne: False
        define hdr where "hdr =
          (if key \<noteq> []
           then spaces (indent * level) @ key @ ''['' @ showNat (length xs) @ '']{''
                  @ strJoin '','' allKeys @ ''}:''
           else spaces (indent * level) @ ''['' @ showNat (length xs) @ '']{''
                  @ strJoin '','' allKeys @ ''}:'')"
        from r False ak kne obtain rows where
          seq: "sequenceE (map (\<lambda>obj. mapRight (strJoin '','')
                  (sequenceE (map (\<lambda>k. rowCell rt obj k) allKeys))) xs) = Inr rows"
          and s: "s = strJoin [NL] (hdr # map ((@) ''  '') rows)"
          unfolding hdr_def by (auto simp: listOfObjectsToToon.simps mapRight_Inr)
        from sequenceE_map_last [OF seq xne]
        have rne: "rows \<noteq> []"
          and "mapRight (strJoin '','') (sequenceE (map (\<lambda>k. rowCell rt (last xs) k) allKeys))
                 = Inr (last rows)"
          by simp_all
        then obtain cells where cs: "sequenceE (map (\<lambda>k. rowCell rt (last xs) k) allKeys) = Inr cells"
          and lr: "last rows = strJoin '','' cells"
          by (auto simp: mapRight_Inr)
        from xne have lmem: "last xs \<in> set xs" by simp
        have "\<forall>c \<in> set cells. \<not> endsWith c NL"
        proof
          fix c assume "c \<in> set cells"
          from sequenceE_map_member [OF cs this]
          obtain k where "k \<in> set allKeys" and "rowCell rt (last xs) k = Inr c" by auto
          with "4.IH"(2) [OF False ak kne lmem] show "\<not> endsWith c NL" by simp
        qed
        then have "\<not> endsWith (last rows) NL"
          unfolding lr by (intro strJoin_noEnd) (simp_all add: endsWith_def)
        then have "okBlock (''  '' @ last rows)"
          using okBlock_append [of "''  ''" "last rows"] by simp
        with rne have "okBlock (last (hdr # map ((@) ''  '') rows))"
          by (simp add: last_map)
        then show ?thesis unfolding s by (intro strJoin_okBlock) simp_all
      qed
    qed
  qed
next
  case (5 rt obj k)
  show ?case
  proof (intro allI impI)
    fix s assume r: "rowCell rt obj k = Inr s"
    then obtain b where p: "propOrEmpty rt obj k = Inr b"
      by (cases "propOrEmpty rt obj k") (auto simp: rowCell.simps)
    show "\<not> endsWith s NL"
    proof (cases b)
      case (BuiltinFunction name)
      with r p have "s = quoteCell (functionText name)" by (simp add: rowCell.simps)
      then show ?thesis by (simp add: quoteCell_noNL functionText_noNL)
    next
      case (Data x1)
      have scalar: "\<not> endsWith s NL"
        if "mapRight quoteCell (valueToToon rt x1 0 0) = Inr s"
          and "\<forall>t. valueToToon rt x1 0 0 = Inr t \<longrightarrow> \<not> endsWith t NL"
        using that by (auto simp: mapRight_Inr quoteCell_noNL)
      show ?thesis
      proof (cases x1)
        case VNull
        with r p Data "5.IH"(1) [OF p Data VNull] scalar show ?thesis by (simp add: rowCell.simps)
      next
        case (VBool x2)
        with r p Data "5.IH"(2) [OF p Data VBool] scalar show ?thesis by (simp add: rowCell.simps)
      next
        case (VNum x3)
        with r p Data "5.IH"(3) [OF p Data VNum] scalar show ?thesis by (simp add: rowCell.simps)
      next
        case (VStr x4)
        with r p Data "5.IH"(4) [OF p Data VStr] scalar show ?thesis by (simp add: rowCell.simps)
      next
        case (VObj kvs)
        with r p Data obtain nestedItems where "s = ''{'' @ strJoin '','' nestedItems @ ''}''"
          by (auto simp: rowCell.simps mapRight_Inr)
        then show ?thesis by (simp add: endsWith_iff)
      next
        case (VArr ys)
        show ?thesis
        proof (cases "ys \<noteq> [] \<and> firstIsObject ys")
          case False
          with r p Data VArr obtain items where "s = ''['' @ strJoin '','' items @ '']''"
            by (auto simp: rowCell.simps mapRight_Inr)
          then show ?thesis by (simp add: endsWith_iff)
        next
          case True
          define pre where "pre = ''['' @ showNat (length ys) @ '']{''
            @ strJoin '','' (nestedKeysOf ys) @ ''}:''"
          from r p Data VArr True obtain nestedRows where
            seq: "sequenceE (map (\<lambda>nestedObj. mapRight (strJoin '','')
                    (sequenceE (map (\<lambda>nk. nestedCell rt nestedObj nk) (nestedKeysOf ys))))
                    (filter isPlainObject ys)) = Inr nestedRows"
            and s: "s = pre @ strJoin '';'' nestedRows"
            unfolding pre_def by (auto simp: rowCell.simps mapRight_Inr)
          have rows_ok: "\<forall>row \<in> set nestedRows. \<not> endsWith row NL"
          proof
            fix row assume "row \<in> set nestedRows"
            from sequenceE_map_member [OF seq this]
            obtain nestedObj cells where no: "nestedObj \<in> set (filter isPlainObject ys)"
              and cs: "sequenceE (map (\<lambda>nk. nestedCell rt nestedObj nk) (nestedKeysOf ys)) = Inr cells"
              and row: "row = strJoin '','' cells"
              by (auto simp: mapRight_Inr)
            have "\<forall>c \<in> set cells. \<not> endsWith c NL"
            proof
              fix c assume "c \<in> set cells"
              from sequenceE_map_member [OF cs this]
              obtain nk where nk: "nk \<in> set (nestedKeysOf ys)"
                and c: "nestedCell rt nestedObj nk = Inr c"
                by auto
              from "5.IH"(5) [OF p Data VArr True no nk] c show "\<not> endsWith c NL" by simp
            qed
            then show "\<not> endsWith row NL"
              unfolding row by (intro strJoin_noEnd) (simp_all add: endsWith_def)
          qed
          have "\<not> endsWith (strJoin '';'' nestedRows) NL"
            using rows_ok by (intro strJoin_noEnd) (simp_all add: endsWith_def)
          moreover have "\<not> endsWith pre NL" by (simp add: pre_def endsWith_iff)
          ultimately show ?thesis unfolding s by (simp add: endsWith_append)
        qed
      qed
    qed
  qed
next
  case (6 rt nestedObj nk)
  show ?case
  proof (intro allI impI)
    fix s assume r: "nestedCell rt nestedObj nk = Inr s"
    then obtain b where p: "propOrEmpty rt nestedObj nk = Inr b"
      by (cases "propOrEmpty rt nestedObj nk") (auto simp: nestedCell.simps)
    show "\<not> endsWith s NL"
    proof (cases b)
      case (BuiltinFunction name)
      with r p have "s = quoteIfAny [CHR '','', CHR '';'', CHR '':''] (functionText name)"
        by (simp add: nestedCell.simps)
      then show ?thesis by (simp add: quoteIfAny_def quoted_noNL functionText_noNL)
    next
      case (Data nv)
      with r p obtain nvStr where nv: "valueToToon rt nv 0 0 = Inr nvStr"
        and c': "s = quoted nvStr \<or> s = nvStr"
        by (auto simp: nestedCell.simps mapRight_Inr quoteIfAny_def split: if_splits)
      from "6.IH" [OF p Data] nv have "\<not> endsWith nvStr NL" by simp
      with c' show ?thesis by (auto simp: quoted_noNL)
    qed
  qed
next
  case (7 rt v indent level)
  show ?case
  proof (intro allI impI)
    fix s assume r: "valueToToon rt v indent level = Inr s"
    show "\<not> endsWith s NL"
    proof (cases v)
      case VNull
      with r show ?thesis by (auto simp: valueToToon.simps endsWith_def)
    next
      case (VBool b)
      with r show ?thesis by (cases b) (auto simp: valueToToon.simps endsWith_def)
    next
      case (VNum n)
      with r show ?thesis by (auto simp: valueToToon.simps showInt_noNL)
    next
      case (VStr str)
      show ?thesis
      proof (cases "list_ex (\<lambda>c. c = NL \<or> c = TAB \<or> c = CR) str")
        case True
        with r VStr show ?thesis using quoted_noNL by (auto simp: valueToToon.simps)
      next
        case False
        from plain_noNL [OF False] False r VStr show ?thesis by (simp add: valueToToon.simps)
      qed
    next
      case (VArr ys)
      with r obtain b where "listToToon rt ys indent level = Inr b" and s: "s = NL # b"
        by (auto simp: valueToToon.simps mapRight_Inr)
      with "7.IH"(1) [OF VArr] have "okBlock b" by simp
      then show ?thesis unfolding s by (simp add: okBlock_def endsWith_iff)
    next
      case (VObj kvs)
      with r obtain b where "dictToToon rt kvs indent level = Inr b" and s: "s = NL # b"
        by (auto simp: valueToToon.simps mapRight_Inr)
      with "7.IH"(2) [OF VObj] have "okBlock b" by simp
      then show ?thesis unfolding s by (simp add: okBlock_def endsWith_iff)
    qed
  qed
qed

subsection \<open>The scalar encoder and the column pass of core.ts\<close>

text \<open>
  The five global replacements of \<^verbatim>\<open>valueToToon\<close> escape a string character by
  character, and \<^verbatim>\<open>valueToToon\<close> quotes a string exactly when it has a newline, a tab
  or a carriage return. The keys \<^verbatim>\<open>allKeysDict\<close> collects come out in first-seen order
  as long as none is an array index or \<^verbatim>\<open>__proto__\<close>.
\<close>

lemma replaceAll_Nil: "replaceAll c r [] = []"
  by (simp add: replaceAll_def)

lemma replaceAll_append: "replaceAll c r (a @ b) = replaceAll c r a @ replaceAll c r b"
  by (simp add: replaceAll_def)

lemma replaceAll_Cons: "replaceAll c r (x # s) = (if x = c then r else [x]) @ replaceAll c r s"
  by (simp add: replaceAll_def)

lemma escapeControl_chars: "escapeControl s = concat (map specEscapeChar s)"
proof (induction s)
  case Nil
  show ?case by (simp add: escapeControl_def replaceAll_Nil)
next
  case (Cons c s)
  have "escapeControl (c # s) = specEscapeChar c @ escapeControl s"
    by (simp add: escapeControl_def specEscapeChar_def replaceAll_Cons replaceAll_append
        replaceAll_Nil)
  with Cons show ?case by simp
qed

lemma valueToToon_string:
  "valueToToon rt (VStr s) indent level =
     Inr (if list_ex (\<lambda>c. c = NL \<or> c = TAB \<or> c = CR) s
          then quoted (concat (map specEscapeChar s)) else s)"
  by (simp add: valueToToon.simps escapeControl_chars)

lemma setKey_plain:
  "\<not> isArrayIndex k \<Longrightarrow> k \<noteq> ''__proto__'' \<Longrightarrow> setKey ks k = appendUnseen ks k"
  by (simp add: setKey_def appendUnseen_def)

lemma foldl_setKey_plain:
  "list_all (\<lambda>k. \<not> isArrayIndex k \<and> k \<noteq> ''__proto__'') ks \<Longrightarrow>
   foldl setKey acc ks = foldl appendUnseen acc ks"
  by (induction ks arbitrary: acc) (simp_all add: setKey_plain)

subsection \<open>First lines of a table\<close>

lemma strJoin_Cons: "strJoin sep (x # xs) = (if xs = [] then x else x @ sep @ strJoin sep xs)"
  by (cases xs) simp_all

lemma set_foldl_appendUnseen: "set (foldl appendUnseen acc ks) = set acc \<union> set ks"
  by (induction ks arbitrary: acc) (auto simp: appendUnseen_def)

lemma go_allKeys_nonempty:
  assumes "VObj (e # es) \<in> set data"
  shows "go_allKeys pick data \<noteq> []"
proof -
  have "fst e \<in> set (map fst (rangeOrder pick (e # es)))"
    by (simp add: rangeOrder_set)
  with assms have "fst e \<in> set (go_allKeys pick data)"
    unfolding go_allKeys_def set_foldl_appendUnseen by force
  then show ?thesis by auto
qed

lemma go_pipe_labelled:
  assumes "key \<noteq> []" and "firstIsObject data" and "go_allKeys pick data \<noteq> []"
  shows "\<exists>rest. go_listOfObjectsToToon PipeTable pick key data indent level
           = (spaces (indent * level) @ key) @ CHR '':'' # NL # rest"
proof -
  from assms(2) have "data \<noteq> []" by (auto simp: firstIsObject_def)
  with assms show ?thesis
    by (simp add: go_listOfObjectsToToon.simps strJoin_Cons)
qed

lemma go_csv_labelled:
  assumes "firstIsObject data" and "go_allKeys pick data \<noteq> []"
  shows "\<exists>rest. go_listOfObjectsToToon CompactCsv pick key data indent level
           = (spaces (indent * level) @ key) @ CHR ''['' # rest"
proof -
  from assms(1) have "data \<noteq> []" by (auto simp: firstIsObject_def)
  with assms show ?thesis
    by (cases "objectsOf data = []") (auto simp: go_listOfObjectsToToon.simps strJoin_Cons)
qed

lemma ts_table_labelled:
  assumes "firstIsObject data" and "listOfObjectsToToon rt key data indent level = Inr s"
  shows "s = ''[]'' \<or> (\<exists>rest. s = (spaces (indent * level) @ key) @ CHR ''['' # rest)"
proof -
  from assms(1) have ne: "data \<noteq> []" by (auto simp: firstIsObject_def)
  from assms ne obtain allKeys where ak: "allKeysOf data = Inr allKeys"
    by (cases "allKeysOf data") (auto simp: listOfObjectsToToon.simps)
  show ?thesis
  proof (cases "allKeys = []")
    case True
    with assms ne ak show ?thesis by (simp add: listOfObjectsToToon.simps)
  next
    case False
    with assms ne ak obtain rows where
      "s = strJoin [NL] ((spaces (indent * level) @ key @ ''['' @ showNat (length data) @ '']{''
             @ strJoin '','' allKeys @ ''}:'') # map ((@) ''  '') rows)"
      by (cases "key = []") (auto simp: listOfObjectsToToon.simps mapRight_Inr)
    then show ?thesis by (simp add: strJoin_Cons)
  qed
qed

text \<open>
  A table with a label and at least one key in some row: the compact text has a bracket
  where the pipe table has the colon that ends its first line, so the two layouts never
  give the same text, whatever the rows, the indentation, the level and the order in
  which the Go runtime visits the maps.
\<close>

lemma labelled_tables_differ:
  assumes "key \<noteq> []" and "firstIsObject data" and "VObj (e # es) \<in> set data"
  shows "listOfObjectsToToon rt key data indent level
           \<noteq> Inr (go_listOfObjectsToToon PipeTable pick key data indent level)
         \<and> go_listOfObjectsToToon CompactCsv pick key data indent level
           \<noteq> go_listOfObjectsToToon PipeTable pick key data indent level"
proof -
  from assms(3) have keys: "go_allKeys pick data \<noteq> []" by (rule go_allKeys_nonempty)
  from go_pipe_labelled [OF assms(1,2) keys] obtain r1 where
    pipe: "go_listOfObjectsToToon PipeTable pick key data indent level
             = (spaces (indent * level) @ key) @ CHR '':'' # NL # r1" by blast
  from go_csv_labelled [OF assms(2) keys] obtain r2 where
    csv: "go_listOfObjectsToToon CompactCsv pick key data indent level
            = (spaces (indent * level) @ key) @ CHR ''['' # r2" by blast
  have "listOfObjectsToToon rt key data indent level
          \<noteq> Inr (go_listOfObjectsToToon PipeTable pick key data indent level)"
  proof
    assume eq: "listOfObjectsToToon rt key data indent level
      = Inr (go_listOfObjectsToToon PipeTable pick key data indent level)"
    from ts_table_labelled [OF assms(2) eq] show False
    proof
      assume "go_listOfObjectsToToon PipeTable pick key data indent level = ''[]''"
      with pipe have "(spaces (indent * level) @ key) @ CHR '':'' # NL # r1 = ''[]''" by simp
      then have "length ((spaces (indent * level) @ key) @ CHR '':'' # NL # r1) = length ''[]''"
        by (rule arg_cong)
      with assms(1) show False by (cases key) simp_all
    next
      assume "\<exists>rest. go_listOfObjectsToToon PipeTable pick key data indent level
        = (spaces (indent * level) @ key) @ CHR ''['' # rest"
      with pipe show False by simp
    qed
  qed
  moreover from pipe csv
  have "go_listOfObjectsToToon CompactCsv pick key data indent level
          \<noteq> go_listOfObjectsToToon PipeTable pick key data indent level" by simp
  ultimately show ?thesis by simp
qed

subsection \<open>The claims\<close>

text \<open>
  Claim C1. The scalar string policy (escape and quote only on a control character) is
  applied at every call site, the top-level entry point included, so that a string with a
  colon, a pipe or a double quote and no control character is emitted bare. The code
  departs from it at the entry point: \<^verbatim>\<open>toToon\<close> tests \<^verbatim>\<open>/[\n\t:|"]/\<close> where
  \<^verbatim>\<open>valueToToon\<close> tests \<^verbatim>\<open>/[\n\t\r]/\<close>. On the string \<^verbatim>\<open>a:b\<close> the entry point
  returns the quoted text and \<^verbatim>\<open>valueToToon\<close> the bare one.
\<close>

theorem C1_toToon_quotes_colon:
  "toToon rt (VStr ''a:b'') 2 = Inr (quoted ''a:b'')
   \<and> valueToToon rt (VStr ''a:b'') 2 0 = Inr ''a:b''
   \<and> toToon rt (VStr ''a|b'') 2 = Inr (quoted ''a|b'')
   \<and> valueToToon rt (VStr ''a|b'') 2 0 = Inr ''a|b''"
  by code_simp

text \<open>
  Claim C2. For every input string, the empty one included, \<^verbatim>\<open>fromToon\<close> fails with
  the explicit "not implemented" error: the result is that error and is never a value.
\<close>

theorem C2_fromToon_always_fails:
  "fromToon s = Inl (Error ''TOON parsing is not yet implemented'')
   \<and> fromToon [] = Inl (Error ''TOON parsing is not yet implemented'')
   \<and> (\<forall>v. fromToon s \<noteq> Inr v)"
  by (simp add: fromToon_def)

text \<open>
  Claim C3. The columns of a table are the keys of all rows in first-seen order. The
  code collects them as the keys of a JavaScript object, which lists array-index keys
  first and in numeric order: for the rows \<^verbatim>\<open>{"2":"x","b":"y"}\<close> and \<^verbatim>\<open>{"1":"z"}\<close> the keys
  are first seen in the order 2, b, 1 and the header reads 1, 2, b.
\<close>

theorem C3_index_keys_reordered:
  "allKeysOf [VObj [(''2'', VStr ''x''), (''b'', VStr ''y'')], VObj [(''1'', VStr ''z'')]]
     = Inr [''1'', ''2'', ''b'']
   \<and> toToon rt (VArr [VObj [(''2'', VStr ''x''), (''b'', VStr ''y'')], VObj [(''1'', VStr ''z'')]]) 2
     = Inr (''[2]{1,2,b}:'' @ [NL] @ ''  ,x,y'' @ [NL] @ ''  z,,'')"
  by code_simp

text \<open>
  Claim C4. An empty sequence or an empty mapping as the value of a key is rendered
  inline, on the line of its key. The code sends it through \<^verbatim>\<open>valueToToon\<close>, which
  puts a line break before \<^verbatim>\<open>[]\<close> and \<^verbatim>\<open>{}\<close>: the key's line ends after the colon and
  the space, and the literal stands on the next line.
\<close>

theorem C4_empty_containers_on_next_line:
  "toToon rt (VObj [(''a'', VArr []), (''b'', VObj [])]) 2
     = Inr (''a: '' @ [NL] @ ''[]'' @ [NL] @ ''b: '' @ [NL] @ ''{}'')"
  by code_simp

text \<open>
  Claim C5. The system has one tabular layout: every encoder entry point renders a
  sequence of mappings the same way. The repository ships two. For the users table of
  the documentation \<^verbatim>\<open>core.ts\<close> returns the compact header-and-rows text and
  \<^verbatim>\<open>src/go/totoon.go\<close> the pipe table, while the second Go source returns the compact
  text of \<^verbatim>\<open>core.ts\<close>. For the example in the comment of \<^verbatim>\<open>toToon\<close> in \<^verbatim>\<open>core.ts\<close>,
  the rows Alice and Bob under the one column name, \<^verbatim>\<open>core.ts\<close> returns the compact text
  and not the pipe table the comment promises; the pipe table of the comment is what
  \<^verbatim>\<open>src/go/totoon.go\<close> returns.
\<close>

theorem C5_two_layouts_shipped:
  "toToon rt (VObj [(''users'', VArr [VObj [(''name'', VStr ''Alice''), (''age'', VNum 30)],
                                VObj [(''name'', VStr ''Bob''), (''age'', VNum 25)]])]) 2
     = Inr (''users[2]{name,age}:'' @ [NL] @ ''  Alice,30'' @ [NL] @ ''  Bob,25'')
   \<and> go_ToToon PipeTable (\<lambda>m. m)
       (VObj [(''users'', VArr [VObj [(''name'', VStr ''Alice''), (''age'', VNum 30)],
                                VObj [(''name'', VStr ''Bob''), (''age'', VNum 25)]])])
     = ''users:'' @ [NL] @ ''  name | age'' @ [NL] @ ''  --- | ---'' @ [NL]
         @ ''  Alice | 30'' @ [NL] @ ''  Bob | 25''
   \<and> go_ToToon CompactCsv (\<lambda>m. m)
       (VObj [(''users'', VArr [VObj [(''name'', VStr ''Alice''), (''age'', VNum 30)],
                                VObj [(''name'', VStr ''Bob''), (''age'', VNum 25)]])])
     = ''users[2]{name,age}:'' @ [NL] @ ''  Alice,30'' @ [NL] @ ''  Bob,25''
   \<and> toToon rt (VObj [(''users'', VArr [VObj [(''name'', VStr ''Alice''), (''age'', VNum 30)],
                                VObj [(''name'', VStr ''Bob''), (''age'', VNum 25)]])]) 2
     \<noteq> Inr (go_ToToon PipeTable (\<lambda>m. m)
         (VObj [(''users'', VArr [VObj [(''name'', VStr ''Alice''), (''age'', VNum 30)],
                                VObj [(''name'', VStr ''Bob''), (''age'', VNum 25)]])]))
   \<and> toToon rt (VArr [VObj [(''name'', VStr ''Alice'')], VObj [(''name'', VStr ''Bob'')]]) 2
     = Inr (''[2]{name}:'' @ [NL] @ ''  Alice'' @ [NL] @ ''  Bob'')
   \<and> go_ToToon PipeTable (\<lambda>m. m)
       (VArr [VObj [(''name'', VStr ''Alice'')], VObj [(''name'', VStr ''Bob'')]])
     = ''name'' @ [NL] @ ''---'' @ [NL] @ ''Alice'' @ [NL] @ ''Bob''"
  by code_simp

text \<open>
  Claim C6. Encoding a mapping lists its keys in insertion order. A Go map keeps no
  insertion order and \<^verbatim>\<open>dictToToon\<close> of both Go sources ranges over the map directly:
  the keys come out in the order of the runtime's choice. When the runtime visits the
  map built from b, a, c in the order c, a, b, so does the output.
\<close>

theorem C6_go_range_order:
  "rangeOrder rev [(''b'', VNum 1), (''a'', VNum 2), (''c'', VNum 3)]
     = [(''c'', VNum 3), (''a'', VNum 2), (''b'', VNum 1)]
   \<and> go_ToToon PipeTable rev (VObj [(''b'', VNum 1), (''a'', VNum 2), (''c'', VNum 3)])
     = ''c: 3'' @ [NL] @ ''a: 2'' @ [NL] @ ''b: 1''
   \<and> go_ToToon CompactCsv rev (VObj [(''b'', VNum 1), (''a'', VNum 2), (''c'', VNum 3)])
     = ''c: 3'' @ [NL] @ ''a: 2'' @ [NL] @ ''b: 1''"
  by code_simp

text \<open>
  Claim C7. Two calls of the encoder on the same value return the same text. In Go two
  calls may range over the same map in two orders, and then return two texts.
\<close>

theorem C7_go_two_runs_differ:
  "go_ToToon PipeTable (\<lambda>m. m) (VObj [(''name'', VStr ''Alice''), (''age'', VNum 30)])
     = ''name: Alice'' @ [NL] @ ''age: 30''
   \<and> go_ToToon PipeTable rev (VObj [(''name'', VStr ''Alice''), (''age'', VNum 30)])
     = ''age: 30'' @ [NL] @ ''name: Alice''
   \<and> go_ToToon PipeTable (\<lambda>m. m) (VObj [(''name'', VStr ''Alice''), (''age'', VNum 30)])
     \<noteq> go_ToToon PipeTable rev (VObj [(''name'', VStr ''Alice''), (''age'', VNum 30)])"
  by code_simp

text \<open>
  Claim C8. A cell that is already wrapped in double quotes is never wrapped again. The
  scalar cells of a row are guarded (\<^verbatim>\<open>quoteCell\<close>), the values of a nested object
  are not: a value with a comma and a line break is quoted by \<^verbatim>\<open>valueToToon\<close> and
  quoted a second time by the row encoder, so its text begins with two double quotes.
\<close>

theorem C8_nested_value_quoted_twice:
  "toToon rt (VArr [VObj [(''a'', VObj [(''k'', VStr (''x,'' @ [NL] @ ''y''))])]]) 2
     = Inr (''[1]{a}:'' @ [NL] @ ''  {k:'' @ [DQ, DQ] @ ''x,'' @ [BSL] @ ''ny'' @ [DQ, DQ] @ ''}'')
   \<and> rowCell rt (VObj [(''k'', VStr (''x,'' @ [NL] @ ''y''))]) ''k''
     = Inr (quoted (''x,'' @ [BSL] @ ''ny''))"
  by code_simp

text \<open>
  Claim C9. The text returned by \<^verbatim>\<open>toToon\<close>, and by each of the block encoders
  \<^verbatim>\<open>dictToToon\<close>, \<^verbatim>\<open>listToToon\<close> and \<^verbatim>\<open>listOfObjectsToToon\<close>, never ends with a line
  break, whatever the value, the indentation and the level.
\<close>

theorem C9_no_trailing_newline:
  "(toToon rt data indent = Inr s1 \<longrightarrow> \<not> endsWith s1 NL)
   \<and> (dictToToon rt kvs indent level = Inr s2 \<longrightarrow> \<not> endsWith s2 NL)
   \<and> (listToToon rt xs indent level = Inr s3 \<longrightarrow> \<not> endsWith s3 NL)
   \<and> (listOfObjectsToToon rt key rows indent level = Inr s4 \<longrightarrow> \<not> endsWith s4 NL)"
proof -
  have top: "\<not> endsWith s NL" if r: "toToon rt data indent = Inr s" for s
  proof (cases data)
    case VNull
    with r show ?thesis by (auto simp: toToon_def endsWith_def)
  next
    case (VBool b)
    with r show ?thesis by (cases b) (auto simp: toToon_def endsWith_def)
  next
    case (VNum n)
    with r show ?thesis by (auto simp: toToon_def showInt_noNL)
  next
    case (VStr str)
    show ?thesis
    proof (cases "list_ex (\<lambda>c. c = NL \<or> c = TAB \<or> c = CHR '':'' \<or> c = CHR ''|'' \<or> c = DQ) str")
      case True
      with r VStr show ?thesis using quoted_noNL by (auto simp: toToon_def)
    next
      case False
      from plain_noNL [OF False] False r VStr show ?thesis by (simp add: toToon_def)
    qed
  next
    case (VArr ys)
    with r encoders_end(3) [of rt ys indent 0] show ?thesis
      by (simp add: toToon_def okBlock_noNL)
  next
    case (VObj es)
    with r encoders_end(1) [of rt es indent 0] show ?thesis
      by (simp add: toToon_def okBlock_noNL)
  qed
  show ?thesis
    using top encoders_end(1) [of rt kvs indent level] encoders_end(3) [of rt xs indent level]
      encoders_end(4) [of rt key rows indent level]
    by (simp add: okBlock_noNL)
qed

theorem C9_no_trailing_newline_witness:
  "toToon minimalRuntime (VObj [(''message'', VStr (''Hello'' @ [NL] @ ''World''))]) 2
     = Inr (''message: '' @ [DQ] @ ''Hello'' @ [BSL] @ ''nWorld'' @ [DQ])
   \<and> \<not> endsWith (''message: '' @ [DQ] @ ''Hello'' @ [BSL] @ ''nWorld'' @ [DQ]) NL
   \<and> dictToToon minimalRuntime [(''a'', VNum 1)] 2 0 = Inr ''a: 1''
   \<and> \<not> endsWith ''a: 1'' NL
   \<and> listToToon minimalRuntime [VNum 1, VNum 2] 2 0 = Inr (''- 1'' @ [NL] @ ''- 2'')
   \<and> \<not> endsWith (''- 1'' @ [NL] @ ''- 2'') NL
   \<and> listOfObjectsToToon minimalRuntime ''users'' [VObj [(''name'', VStr ''Alice'')]] 2 0
     = Inr (''users[1]{name}:'' @ [NL] @ ''  Alice'')
   \<and> \<not> endsWith (''users[1]{name}:'' @ [NL] @ ''  Alice'') NL"
proof -
  have e1: "toToon minimalRuntime (VObj [(''message'', VStr (''Hello'' @ [NL] @ ''World''))]) 2
     = Inr (''message: '' @ [DQ] @ ''Hello'' @ [BSL] @ ''nWorld'' @ [DQ])"
    by code_simp
  have e2: "dictToToon minimalRuntime [(''a'', VNum 1)] 2 0 = Inr ''a: 1''"
    by code_simp
  have e3: "listToToon minimalRuntime [VNum 1, VNum 2] 2 0 = Inr (''- 1'' @ [NL] @ ''- 2'')"
    by code_simp
  have e4: "listOfObjectsToToon minimalRuntime ''users'' [VObj [(''name'', VStr ''Alice'')]] 2 0
     = Inr (''users[1]{name}:'' @ [NL] @ ''  Alice'')"
    by code_simp
  from C9_no_trailing_newline
    [of minimalRuntime "VObj [(''message'', VStr (''Hello'' @ [NL] @ ''World''))]" 2
        "''message: '' @ [DQ] @ ''Hello'' @ [BSL] @ ''nWorld'' @ [DQ]"
        "[(''a'', VNum 1)]" 0 "''a: 1''"
        "[VNum 1, VNum 2]" "''- 1'' @ [NL] @ ''- 2''"
        "''users''" "[VObj [(''name'', VStr ''Alice'')]]"
        "''users[1]{name}:'' @ [NL] @ ''  Alice''"]
    e1 e2 e3 e4
  show ?thesis by blast
qed




end
